theory Spec2Isabelle
  imports Main "HOL-Library.Sublist"
begin

section \<open>Go strings\<close>

text \<open>
  A Go \<open>string\<close> and a Go \<open>[]byte\<close> are sequences of bytes; both are modelled as
  \<^typ>\<open>string\<close>, a list of 8-bit characters. The functions of this section are the ones of
  Go's packages \<open>strings\<close> and \<open>bytes\<close> that \<open>args.go\<close> calls.
\<close>

definition HasPrefix :: "string \<Rightarrow> string \<Rightarrow> bool" where
  \<comment> \<open>\<open>strings.HasPrefix(s, p)\<close>\<close>
  "HasPrefix s p = prefix p s"

definition HasSuffix :: "string \<Rightarrow> string \<Rightarrow> bool" where
  \<comment> \<open>\<open>strings.HasSuffix(s, suf)\<close>\<close>
  "HasSuffix s suf = suffix suf s"

definition TrimPrefix :: "string \<Rightarrow> string \<Rightarrow> string" where
  \<comment> \<open>\<open>strings.TrimPrefix(s, p)\<close>: \<open>s[len(p):]\<close> when \<open>s\<close> starts with \<open>p\<close>, else \<open>s\<close>\<close>
  "TrimPrefix s p = (if HasPrefix s p then drop (length p) s else s)"

definition TrimSuffix :: "string \<Rightarrow> string \<Rightarrow> string" where
  \<comment> \<open>\<open>strings.TrimSuffix(s, suf)\<close>: \<open>s[:len(s)-len(suf)]\<close> when \<open>s\<close> ends with \<open>suf\<close>, else \<open>s\<close>\<close>
  "TrimSuffix s suf = (if HasSuffix s suf then take (length s - length suf) s else s)"

fun Index :: "string \<Rightarrow> string \<Rightarrow> nat option" where
  \<comment> \<open>\<open>strings.Index(s, sep)\<close>, \<open>bytes.Index\<close>: where \<open>sep\<close> first occurs in \<open>s\<close>;
      \<open>None\<close> is Go's \<open>-1\<close>\<close>
  "Index [] sep = (if sep = [] then Some 0 else None)"
| "Index (c # cs) sep =
     (if prefix sep (c # cs) then Some 0 else map_option Suc (Index cs sep))"

function Replace :: "string \<Rightarrow> string \<Rightarrow> string \<Rightarrow> string" where
  \<comment> \<open>\<open>bytes.Replace(s, old, new, -1)\<close> and \<open>strings.Replace(s, old, new, -1)\<close>: the
      occurrences of \<open>old\<close> are found from the left, each search starting after the
      previous occurrence. For an empty \<open>old\<close> Go inserts \<open>new\<close> before every UTF-8
      sequence and at the end (written here for single-byte sequences); \<open>args.go\<close>
      passes the constants \<open>YEAR\<close> and \<open>GENERATOR_NAME\<close> only.\<close>
  "Replace s old new =
     (if old = [] then concat (map (\<lambda>c. new @ [c]) s) @ new
      else (case Index s old of
              None \<Rightarrow> s
            | Some j \<Rightarrow> take j s @ new @ Replace (drop (j + length old) s) old new))"
  by pat_completeness auto
termination
proof (relation "measure (\<lambda>(s, old, new). length s)")
  show "wf (measure (\<lambda>(s, old, new). length s))"
    by simp
next
  fix s old new :: string and j :: nat
  assume "old \<noteq> []" and "Index s old = Some j"
  then have "s \<noteq> []" and "0 < length old"
    by auto
  then show "((drop (j + length old) s, old, new), (s, old, new))
               \<in> measure (\<lambda>(s, old, new). length s)"
    by simp
qed

declare Replace.simps [simp del]

fun Join :: "string list \<Rightarrow> string \<Rightarrow> string" where
  \<comment> \<open>\<open>strings.Join(elems, sep)\<close>\<close>
  "Join [] sep = []"
| "Join [e] sep = e"
| "Join (e # es) sep = e @ sep @ Join es sep"

function Split :: "string \<Rightarrow> string \<Rightarrow> string list" where
  \<comment> \<open>\<open>strings.Split(s, sep)\<close>: the pieces of \<open>s\<close> between the occurrences of \<open>sep\<close>,
      at least one piece. For an empty \<open>sep\<close> Go cuts after every UTF-8 sequence
      (written here for single-byte sequences); \<open>args.go\<close> passes the list separator.\<close>
  "Split s sep =
     (if sep = [] then map (\<lambda>c. [c]) s
      else (case Index s sep of
              None \<Rightarrow> [s]
            | Some m \<Rightarrow> take m s # Split (drop (m + length sep) s) sep))"
  by pat_completeness auto
termination
proof (relation "measure (\<lambda>(s, sep). length s)")
  show "wf (measure (\<lambda>(s, sep). length s))"
    by simp
next
  fix s sep :: string and m :: nat
  assume "sep \<noteq> []" and "Index s sep = Some m"
  then have "s \<noteq> []" and "0 < length sep"
    by auto
  then show "((drop (m + length sep) s, sep), (s, sep)) \<in> measure (\<lambda>(s, sep). length s)"
    by simp
qed

declare Split.simps [simp del]

fun formatBits :: "nat \<Rightarrow> string" where
  \<comment> \<open>the decimal digits of a natural number, most significant first\<close>
  "formatBits n =
     (if n < 10 then [char_of (48 + n)]
      else formatBits (n div 10) @ [char_of (48 + n mod 10)])"

declare formatBits.simps [simp del]

definition Itoa :: "int \<Rightarrow> string" where
  \<comment> \<open>\<open>strconv.Itoa(i)\<close>\<close>
  "Itoa i = (if i < 0 then CHR ''-'' # formatBits (nat (- i)) else formatBits (nat i))"

text \<open>
  What a decimal string is, apart from \<open>Itoa\<close>: its characters are the ten digits, and
  its value is read from the left, each digit adding to ten times the value so far.
\<close>

definition decimal_digit :: "char \<Rightarrow> bool" where
  "decimal_digit c = (c \<in> set ''0123456789'')"

definition decimal_value :: "string \<Rightarrow> nat" where
  "decimal_value s = foldl (\<lambda>n c. 10 * n + (of_char c - 48)) 0 s"

section \<open>Go paths\<close>

text \<open>
  \<open>path.Base\<close>, and \<open>filepath.Clean\<close> and \<open>filepath.Join\<close> as they are on a system whose
  path separator is \<open>/\<close> and whose list separator is \<open>:\<close>.
\<close>

definition Separator :: char where
  "Separator = CHR ''/''"

definition ListSeparator :: char where
  "ListSeparator = CHR '':''"

definition Base :: "string \<Rightarrow> string" where
  \<comment> \<open>\<open>path.Base(path)\<close>: trailing slashes are removed, then everything up to the last
      slash; an empty path gives \<open>.\<close> and a path of slashes gives \<open>/\<close>\<close>
  "Base path =
     (if path = [] then ''.''
      else (let path = rev (dropWhile (\<lambda>c. c = CHR ''/'') (rev path));
                path = rev (takeWhile (\<lambda>c. c \<noteq> CHR ''/'') (rev path))
            in if path = [] then ''/'' else path))"

function backtrack :: "string \<Rightarrow> nat \<Rightarrow> nat \<Rightarrow> nat" where
  \<comment> \<open>in \<open>Clean\<close>: \<open>for out.w > dotdot && !os.IsPathSeparator(out.index(out.w)) { out.w-- }\<close>\<close>
  "backtrack out dotdot w =
     (if w > dotdot \<and> out ! w \<noteq> Separator then backtrack out dotdot (w - 1) else w)"
  by pat_completeness auto
termination
  by (relation "measure (\<lambda>(out, dotdot, w). w)") auto

declare backtrack.simps [simp del]

function Clean_loop :: "bool \<Rightarrow> string \<Rightarrow> string \<Rightarrow> nat \<Rightarrow> string" where
  \<comment> \<open>the loop \<open>for r < n\<close> of \<open>Clean\<close>: the second argument is \<open>path[r:]\<close>, the third the
      buffer \<open>out\<close> up to \<open>out.w\<close>\<close>
  "Clean_loop rooted [] out dotdot = out"
| "Clean_loop rooted (c # cs) out dotdot =
     (if c = Separator then Clean_loop rooted cs out dotdot
      else if c = CHR ''.'' \<and> (cs = [] \<or> hd cs = Separator) then
        Clean_loop rooted cs out dotdot
      else if c = CHR ''.'' \<and> hd cs = CHR ''.'' \<and> (tl cs = [] \<or> hd (tl cs) = Separator) then
        (if length out > dotdot then
           Clean_loop rooted (tl cs) (take (backtrack out dotdot (length out - 1)) out) dotdot
         else if \<not> rooted then
           (let out = (if length out > 0 then out @ [Separator] else out);
                out = out @ ''..''
            in Clean_loop rooted (tl cs) out (length out))
         else Clean_loop rooted (tl cs) out dotdot)
      else
        (let out = (if rooted \<and> length out \<noteq> 1 \<or> \<not> rooted \<and> length out \<noteq> 0
                    then out @ [Separator] else out)
         in Clean_loop rooted (dropWhile (\<lambda>x. x \<noteq> Separator) (c # cs))
              (out @ takeWhile (\<lambda>x. x \<noteq> Separator) (c # cs)) dotdot))"
  by pat_completeness auto
termination
proof (relation "measure (\<lambda>(rooted, path, out, dotdot). length path)")
  show "wf (measure (\<lambda>(rooted, path, out, dotdot). length path))"
    by simp
next
  fix rooted :: bool and c :: char and cs out x :: string and dotdot :: nat
  assume "c \<noteq> Separator"
  then have "length (dropWhile (\<lambda>x. x \<noteq> Separator) (c # cs)) \<le> length cs"
    by (simp add: length_dropWhile_le)
  then show "((rooted, dropWhile (\<lambda>x. x \<noteq> Separator) (c # cs),
                x @ takeWhile (\<lambda>x. x \<noteq> Separator) (c # cs), dotdot),
               rooted, c # cs, out, dotdot)
              \<in> measure (\<lambda>(rooted, path, out, dotdot). length path)"
    by simp
qed auto

definition Clean :: "string \<Rightarrow> string" where
  \<comment> \<open>\<open>filepath.Clean(path)\<close>\<close>
  "Clean path =
     (if path = [] then ''.''
      else (let rooted = (hd path = Separator);
                out = (if rooted
                       then Clean_loop rooted (tl path) [Separator] 1
                       else Clean_loop rooted path [] 0)
            in if length out = 0 then ''.'' else out))"

definition filepath_Join :: "string list \<Rightarrow> string" where
  \<comment> \<open>\<open>filepath.Join(elem...)\<close>: the elements from the first non-empty one on, joined by
      the separator and cleaned; the empty string when every element is empty\<close>
  "filepath_Join elem =
     (case dropWhile (\<lambda>e. e = []) elem of
        [] \<Rightarrow> []
      | e # es \<Rightarrow> Clean (Join (e # es) [Separator]))"

section \<open>Errors and outcomes\<close>

text \<open>
  An \<open>error\<close> value is either one that a collaborator or the run-time library made,
  kept with its message, or one of the three that \<open>args.go\<close> makes with \<open>fmt.Errorf\<close>,
  kept with the arguments of the format.
\<close>

datatype error =
    External string
  | UnableToAddDirectory string error
  | FailedMakingContext error
  | FailedExecutingGenerator error

primrec Error :: "(string \<Rightarrow> string) \<Rightarrow> error \<Rightarrow> string" where
  \<comment> \<open>the message of an error; \<open>quote\<close> is \<open>strconv.Quote\<close>, which the verb \<open>%q\<close> applies\<close>
  "Error quote (External msg) = msg"
| "Error quote (UnableToAddDirectory d err) =
     ''unable to add directory '' @ quote d @ '': '' @ Error quote err"
| "Error quote (FailedMakingContext err) = ''failed making a context: '' @ Error quote err"
| "Error quote (FailedExecutingGenerator err) =
     ''failed executing generator: '' @ Error quote err"

text \<open>
  A call returns, panics (an index out of range) or ends the process
  (\<open>RunAndExitOnError\<close>).
\<close>

datatype 'a outcome = Returns 'a | Panics | Exits

section \<open>The process\<close>

text \<open>
  What \<open>args.go\<close> reads of the process and its surroundings: the environment variables
  (\<open>os.Getenv\<close>), the command line (\<open>os.Args\<close>), the files (\<open>ioutil.ReadFile\<close>, which
  returns the content or an error) and the year of \<open>time.Now().UTC()\<close>.
\<close>

record process =
  environ :: "string \<rightharpoonup> string"
  Args :: "string list"
  ReadFile :: "string \<Rightarrow> error + string"
  Year :: int

definition Getenv :: "process \<Rightarrow> string \<Rightarrow> string" where
  \<comment> \<open>\<open>os.Getenv(key)\<close>: the empty string when the variable is not set\<close>
  "Getenv os key = (case environ os key of None \<Rightarrow> [] | Some v \<Rightarrow> v)"

section \<open>The argument model\<close>

text \<open>
  \<open>GeneratorArgs\<close> of \<open>args.go\<close>, field by field. \<open>CustomArgs\<close> is an
  \<open>interface{}\<close> in the source and a type parameter here.
\<close>

record 'x GeneratorArgs =
  InputDirs :: "string list"
  OutputBase :: string
  OutputPackagePath :: string
  OutputFileBaseName :: string
  GoHeaderFilePath :: string
  GeneratedByCommentTemplate :: string
  VerifyOnly :: bool
  IncludeTestFile :: bool
  GeneratedBuildTag :: string
  CustomArgs :: 'x
  defaultCommandLineFlags :: bool

text \<open>
  \<open>types.Package\<close> is declared outside \<open>args.go\<close>; \<open>InputIncludes\<close> reads its
  field \<open>Path\<close> only.
\<close>

record Package =
  Path :: string

section \<open>\<open>InputIncludes\<close>\<close>

definition input_root :: "string \<Rightarrow> string" where
  \<comment> \<open>the value of \<open>d\<close> at the prefix test of the loop body, for the input directory \<open>dir\<close>\<close>
  "input_root dir =
     (let d = dir;
          d = (if HasSuffix d ''...'' then TrimSuffix d ''...'' else d);
          d = (if HasPrefix d ''./vendor/'' then TrimPrefix d ''./vendor/'' else d)
      in d)"

fun InputIncludes_loop :: "string list \<Rightarrow> Package \<Rightarrow> bool" where
  \<comment> \<open>\<open>for _, dir := range g.InputDirs\<close>, with its early \<open>return true\<close>\<close>
  "InputIncludes_loop [] p = False"
| "InputIncludes_loop (dir # dirs) p =
     (if HasPrefix (Path p) (input_root dir) then True else InputIncludes_loop dirs p)"

definition InputIncludes :: "'x GeneratorArgs \<Rightarrow> Package \<Rightarrow> bool" where
  "InputIncludes g p = InputIncludes_loop (InputDirs g) p"

text \<open>
  The normalisation of an input root in the words of the specification: a trailing
  recursive marker \<open>...\<close> is removed if there is one, then a leading \<open>./vendor/\<close> is
  removed if there is one.
\<close>

definition strip_recursive_marker :: "string \<Rightarrow> string" where
  "strip_recursive_marker root =
     (if 3 \<le> length root \<and> drop (length root - 3) root = ''...''
      then take (length root - 3) root else root)"

definition strip_vendor_prefix :: "string \<Rightarrow> string" where
  "strip_vendor_prefix root = (if take 9 root = ''./vendor/'' then drop 9 root else root)"

definition normalized_root :: "string \<Rightarrow> string" where
  "normalized_root root = strip_vendor_prefix (strip_recursive_marker root)"

section \<open>\<open>DefaultSourceTree\<close>\<close>

definition DefaultSourceTree :: "process \<Rightarrow> string" where
  "DefaultSourceTree os =
     (let paths = Split (Getenv os ''GOPATH'') [ListSeparator]
      in if length paths > 0 \<and> length (paths ! 0) > 0
         then filepath_Join [paths ! 0, ''src'']
         else ''./'')"

section \<open>\<open>LoadGoBoilerplate\<close>\<close>

definition append_generated_by ::
  "process \<Rightarrow> 'x GeneratorArgs \<Rightarrow> string \<Rightarrow> (error + string) outcome" where
  \<comment> \<open>the statement \<open>if g.GeneratedByCommentTemplate != "" { ... }\<close> and the
      \<open>return b, nil\<close> after it, from the value of \<open>b\<close> before them. \<open>os.Args[0]\<close>
      panics when \<open>os.Args\<close> is empty. \<open>Inr b\<close> is the pair \<open>(b, nil)\<close>.\<close>
  "append_generated_by os g b =
     (if GeneratedByCommentTemplate g \<noteq> [] then
        (if length b \<noteq> 0 then
           (let b = b @ [CHR 0x0A]
            in case Args os of
                 [] \<Rightarrow> Panics
               | arg0 # _ \<Rightarrow>
                   (let generatorName = Base arg0;
                        generatedByComment =
                          Replace (GeneratedByCommentTemplate g) ''GENERATOR_NAME'' generatorName;
                        s = generatedByComment @ [CHR 0x0A, CHR 0x0A];
                        b = b @ s
                    in Returns (Inr b)))
         else Returns (Inr b))
      else Returns (Inr b))"

definition LoadGoBoilerplate :: "process \<Rightarrow> 'x GeneratorArgs \<Rightarrow> (error + string) outcome" where
  \<comment> \<open>\<open>Inl err\<close> is the pair \<open>(nil, err)\<close>\<close>
  "LoadGoBoilerplate os g =
     (case ReadFile os (GoHeaderFilePath g) of
        Inl err \<Rightarrow> Returns (Inl err)
      | Inr b \<Rightarrow>
          (let b = Replace b ''YEAR'' (Itoa (Year os))
           in append_generated_by os g b))"

section \<open>The collaborators\<close>

text \<open>
  The packages \<open>parser\<close>, \<open>generator\<close> and \<open>cli\<close> are used by \<open>args.go\<close> and declared
  elsewhere: their operations are parameters. A builder and a context have the field
  that \<open>args.go\<close> assigns and a state of their own, which the operations may read and
  change. Every call of an operation is recorded, in order, in a list of calls.
\<close>

record 's Builder =
  IncludeTestFiles :: bool
  builder_state :: 's


record 's parser_pkg =
  parser_New :: "'s Builder"
  AddBuildTags :: "'s Builder \<Rightarrow> string \<Rightarrow> 's Builder"
  AddDir :: "'s Builder \<Rightarrow> string \<Rightarrow> error option \<times> 's Builder"
  AddDirRecursive :: "'s Builder \<Rightarrow> string \<Rightarrow> error option \<times> 's Builder"



datatype parser_call =
    Call_New
  | Call_AddBuildTags string
  | Call_AddDir string
  | Call_AddDirRecursive string

datatype 'p call =
    Call_RunAndExitOnError
  | Call_parser parser_call
  | Call_NewContext string
  | Call_pkgs
  | Call_ExecutePackages string "'p list"

fun is_ExecutePackages :: "'p call \<Rightarrow> bool" where
  "is_ExecutePackages (Call_ExecutePackages base ps) = True"
| "is_ExecutePackages e = False"

section \<open>\<open>NewBuilder\<close>\<close>

definition registration :: "string \<Rightarrow> parser_call" where
  \<comment> \<open>the call that the loop body makes for the input directory \<open>d\<close>\<close>
  "registration d =
     (if HasSuffix d ''/...'' then Call_AddDirRecursive (TrimSuffix d ''/...'')
      else Call_AddDir d)"

definition add_input_dir ::
  "'s parser_pkg \<Rightarrow> 's Builder \<Rightarrow> string \<Rightarrow> error option \<times> 's Builder" where
  \<comment> \<open>the \<open>if\<close> of the loop body: \<open>err\<close> and the builder after the call\<close>
  "add_input_dir P b d =
     (if HasSuffix d ''/...'' then AddDirRecursive P b (TrimSuffix d ''/...'')
      else AddDir P b d)"

fun NewBuilder_loop ::
  "'s parser_pkg \<Rightarrow> string list \<Rightarrow> 's Builder \<Rightarrow> parser_call list \<times> (error + 's Builder)" where
  \<comment> \<open>\<open>for _, d := range g.InputDirs\<close>, then \<open>return b, nil\<close>\<close>
  "NewBuilder_loop P [] b = ([], Inr b)"
| "NewBuilder_loop P (d # ds) b =
     (case add_input_dir P b d of
        (Some err, b') \<Rightarrow> ([registration d], Inl (UnableToAddDirectory d err))
      | (None, b') \<Rightarrow>
          (case NewBuilder_loop P ds b' of (calls, r) \<Rightarrow> (registration d # calls, r)))"

definition NewBuilder ::
  "'s parser_pkg \<Rightarrow> 'x GeneratorArgs \<Rightarrow> parser_call list \<times> (error + 's Builder)" where
  \<comment> \<open>the calls made, and \<open>Inl err\<close> for \<open>(nil, err)\<close> or \<open>Inr b\<close> for \<open>(b, nil)\<close>\<close>
  "NewBuilder P g =
     (let b = parser_New P;
          b = b\<lparr>IncludeTestFiles := IncludeTestFile g\<rparr>;
          b = AddBuildTags P b (GeneratedBuildTag g)
      in case NewBuilder_loop P (InputDirs g) b of
           (calls, r) \<Rightarrow> (Call_New # Call_AddBuildTags (GeneratedBuildTag g) # calls, r))"

section \<open>\<open>Execute\<close>\<close>



section \<open>Properties of the string functions\<close>

lemma HasPrefix_iff_take: "HasPrefix s p \<longleftrightarrow> take (length p) s = p"
  unfolding HasPrefix_def
  by (metis append_eq_conv_conj prefix_def append_take_drop_id)

lemma HasSuffix_iff_drop:
  "HasSuffix s suf \<longleftrightarrow> length suf \<le> length s \<and> drop (length s - length suf) s = suf"
proof
  assume "HasSuffix s suf"
  then obtain r where "s = r @ suf"
    by (auto simp: HasSuffix_def suffix_def)
  then show "length suf \<le> length s \<and> drop (length s - length suf) s = suf"
    by simp
next
  assume "length suf \<le> length s \<and> drop (length s - length suf) s = suf"
  then have "s = take (length s - length suf) s @ suf"
    by (metis append_take_drop_id)
  then show "HasSuffix s suf"
    unfolding HasSuffix_def suffix_def by blast
qed

lemma TrimSuffix_append [simp]: "TrimSuffix (r @ suf) suf = r"
  by (simp add: TrimSuffix_def HasSuffix_def suffix_def)

lemma TrimPrefix_append [simp]: "TrimPrefix (p @ r) p = r"
  by (simp add: TrimPrefix_def HasPrefix_def prefix_def)

lemma TrimSuffix_other: "\<not> HasSuffix s suf \<Longrightarrow> TrimSuffix s suf = s"
  by (simp add: TrimSuffix_def)

lemma TrimPrefix_other: "\<not> HasPrefix s p \<Longrightarrow> TrimPrefix s p = s"
  by (simp add: TrimPrefix_def)

lemma Index_None_iff: "Index s old = None \<longleftrightarrow> \<not> sublist old s"
  by (induction s) (auto simp: sublist_Cons_right)

lemma Index_Some_decomp:
  "Index s old = Some j \<Longrightarrow> s = take j s @ old @ drop (j + length old) s"
proof (induction s arbitrary: j)
  case Nil
  then show ?case by (simp split: if_splits)
next
  case (Cons c cs)
  show ?case
  proof (cases "prefix old (c # cs)")
    case True
    then have "j = 0" using Cons.prems by simp
    moreover from True obtain r where "c # cs = old @ r"
      by (auto simp: prefix_def)
    ultimately show ?thesis by simp
  next
    case False
    then obtain j' where j': "Index cs old = Some j'" "j = Suc j'"
      using Cons.prems by auto
    from Cons.IH [OF j'(1)] show ?thesis
      using j'(2) by simp
  qed
qed

lemma Index_Some_first:
  "Index s old = Some j \<Longrightarrow> old \<noteq> [] \<Longrightarrow> \<not> sublist old (take j s)"
proof (induction s arbitrary: j)
  case Nil
  then show ?case by simp
next
  case (Cons c cs)
  show ?case
  proof (cases "prefix old (c # cs)")
    case True
    then have "j = 0" using Cons.prems by simp
    then show ?thesis using Cons.prems(2) by simp
  next
    case False
    then obtain j' where j': "Index cs old = Some j'" "j = Suc j'"
      using Cons.prems by auto
    have "\<not> prefix old (c # take j' cs)"
    proof
      assume "prefix old (c # take j' cs)"
      moreover have "prefix (c # take j' cs) (c # cs)"
        by (simp add: take_is_prefix)
      ultimately have "prefix old (c # cs)"
        by (rule prefix_order.trans)
      with False show False ..
    qed
    moreover have "\<not> sublist old (take j' cs)"
      using Cons.IH [OF j'(1) Cons.prems(2)] .
    ultimately show ?thesis
      using j'(2) by (simp add: sublist_Cons_right)
  qed
qed

lemma Index_after_free:
  assumes "c \<notin> set rest" and "\<not> sublist (c # rest) s"
  shows "Index (s @ c # rest @ t) (c # rest) = Some (length s)"
  using assms(2)
proof (induction s)
  case Nil
  then show ?case by simp
next
  case (Cons a s)
  have free: "\<not> sublist (c # rest) s"
    using Cons.prems by (simp add: sublist_Cons_right)
  have "\<not> prefix (c # rest) (a # s @ c # rest @ t)"
  proof
    assume p: "prefix (c # rest) (a # s @ c # rest @ t)"
    then have r: "prefix rest (s @ c # rest @ t)"
      by auto
    show False
    proof (cases "length rest \<le> length s")
      case True
      with r have "prefix rest s"
        by (metis prefix_length_prefix prefixI append_eq_append_conv2 prefix_def)
      with p have "prefix (c # rest) (a # s)"
        by simp
      with Cons.prems show False
        by (simp add: sublist_Cons_right)
    next
      case False
      then have "length s < length rest" by simp
      moreover from r obtain z where "s @ c # rest @ t = rest @ z"
        by (auto simp: prefix_def)
      ultimately have "rest ! length s = c"
        by (metis nth_append nth_append_length)
      with \<open>length s < length rest\<close> have "c \<in> set rest"
        by (metis nth_mem)
      with assms(1) show False ..
    qed
  qed
  with Cons.IH [OF free] show ?case
    by simp
qed

lemma Index_single:
  "Index s [c] = (if c \<in> set s then Some (length (takeWhile (\<lambda>x. x \<noteq> c) s)) else None)"
  by (induction s) auto

lemma Replace_free: "old \<noteq> [] \<Longrightarrow> \<not> sublist old s \<Longrightarrow> Replace s old new = s"
  by (subst Replace.simps) (simp add: Index_None_iff [symmetric])

lemma Replace_at_first:
  assumes "c \<notin> set rest" and "\<not> sublist (c # rest) s"
  shows "Replace (s @ c # rest @ t) (c # rest) new = s @ new @ Replace t (c # rest) new"
  by (subst Replace.simps) (simp add: Index_after_free [OF assms])

lemma Replace_Join:
  assumes "c \<notin> set rest" and "\<forall>x \<in> set segs. \<not> sublist (c # rest) x"
  shows "Replace (Join segs (c # rest)) (c # rest) new = Join segs new"
  using assms(2)
proof (induction segs "c # rest" rule: Join.induct)
  case 1
  show ?case by (subst Replace.simps) simp
next
  case (2 e)
  then show ?case by (simp add: Replace_free)
next
  case (3 e v va)
  then show ?case
    using Replace_at_first [OF assms(1), of e "Join (v # va) (c # rest)" new]
    by simp
qed

lemma Join_Split: "sep \<noteq> [] \<Longrightarrow> Join (Split s sep) sep = s"
proof (induction s sep rule: Split.induct)
  case (1 s sep)
  show ?case
  proof (cases "Index s sep")
    case None
    then show ?thesis using "1.prems" by (subst Split.simps) simp
  next
    case (Some m)
    have ne: "Split (drop (m + length sep) s) sep \<noteq> []"
      using "1.prems" by (subst Split.simps) (simp split: option.splits)
    then obtain y ys where y: "Split (drop (m + length sep) s) sep = y # ys"
      by (cases "Split (drop (m + length sep) s) sep") auto
    have "Join (Split s sep) sep = take m s @ sep @ Join (Split (drop (m + length sep) s) sep) sep"
      using "1.prems" Some y by (subst Split.simps) simp
    also have "\<dots> = take m s @ sep @ drop (m + length sep) s"
      using "1.IH" [OF "1.prems" Some "1.prems"] by simp
    also have "\<dots> = s"
      using Index_Some_decomp [OF Some] by simp
    finally show ?thesis .
  qed
qed

lemma Split_free: "sep \<noteq> [] \<Longrightarrow> x \<in> set (Split s sep) \<Longrightarrow> \<not> sublist sep x"
proof (induction s sep rule: Split.induct)
  case (1 s sep)
  show ?case
  proof (cases "Index s sep")
    case None
    then have "Split s sep = [s]"
      using "1.prems"(1) by (subst Split.simps) simp
    with "1.prems"(2) None show ?thesis
      by (simp add: Index_None_iff)
  next
    case (Some m)
    then have "Split s sep = take m s # Split (drop (m + length sep) s) sep"
      using "1.prems"(1) by (subst Split.simps) simp
    with "1.prems"(2) consider "x = take m s" | "x \<in> set (Split (drop (m + length sep) s) sep)"
      by auto
    then show ?thesis
    proof cases
      case 1
      then show ?thesis using Index_Some_first [OF Some "1.prems"(1)] by simp
    next
      case 2
      then show ?thesis using "1.IH" [OF "1.prems"(1) Some "1.prems"(1)] by simp
    qed
  qed
qed

lemma Split_single:
  "\<exists>rest. Split s [c] = takeWhile (\<lambda>x. x \<noteq> c) s # rest"
proof (cases "c \<in> set s")
  case True
  then show ?thesis
    by (subst Split.simps) (simp add: Index_single takeWhile_eq_take [symmetric])
next
  case False
  then have tw: "takeWhile (\<lambda>x. x \<noteq> c) s = s"
    by (auto simp: takeWhile_eq_all_conv)
  have sp: "Split s [c] = [s]"
    using False by (subst Split.simps) (simp add: Index_single)
  show ?thesis
    unfolding tw sp by blast
qed

lemma YEAR_decomposition:
  "\<exists>segs. b = Join segs ''YEAR'' \<and> (\<forall>x \<in> set segs. \<not> sublist ''YEAR'' x)"
proof -
  have "Join (Split b ''YEAR'') ''YEAR'' = b"
    by (rule Join_Split) simp
  moreover have "\<forall>x \<in> set (Split b ''YEAR''). \<not> sublist ''YEAR'' x"
    using Split_free [of "''YEAR''" _ b] by blast
  ultimately show ?thesis
    by metis
qed

lemma decimal_digit_char_of:
  assumes "k < (10 :: nat)"
  shows "decimal_digit (char_of (48 + k))"
proof -
  from assms have "k = 0 \<or> k = 1 \<or> k = 2 \<or> k = 3 \<or> k = 4 \<or> k = 5 \<or> k = 6
      \<or> k = 7 \<or> k = 8 \<or> k = 9"
    by arith
  then have "k \<in> set [0, 1, 2, 3, 4, 5, 6, 7, 8, 9]"
    by simp
  then have "char_of (48 + k) \<in> set (map (\<lambda>k. char_of (48 + k)) [0, 1, 2, 3, 4, 5, 6, 7, 8, 9 :: nat])"
    unfolding set_map by (rule imageI)
  also have "map (\<lambda>k. char_of (48 + k)) [0, 1, 2, 3, 4, 5, 6, 7, 8, 9 :: nat] = ''0123456789''"
    by code_simp
  finally show ?thesis
    unfolding decimal_digit_def .
qed

lemma formatBits_digits: "\<forall>c \<in> set (formatBits n). decimal_digit c"
proof (induction n rule: formatBits.induct)
  case (1 n)
  show ?case
  proof (cases "n < 10")
    case True
    then show ?thesis
      by (subst formatBits.simps) (simp add: decimal_digit_char_of)
  next
    case False
    then have "\<forall>c \<in> set (formatBits (n div 10)). decimal_digit c"
      using "1.IH" by simp
    moreover have "decimal_digit (char_of (48 + n mod 10))"
      by (rule decimal_digit_char_of) simp
    ultimately show ?thesis
      using False by (subst formatBits.simps) simp
  qed
qed

lemma decimal_value_formatBits: "decimal_value (formatBits n) = n"
proof (induction n rule: formatBits.induct)
  case (1 n)
  show ?case
  proof (cases "n < 10")
    case True
    then show ?thesis
      by (subst formatBits.simps) (simp add: decimal_value_def)
  next
    case False
    then have "decimal_value (formatBits (n div 10)) = n div 10"
      using "1.IH" by simp
    then show ?thesis
      using False by (subst formatBits.simps) (simp add: decimal_value_def)
  qed
qed

lemma Itoa_decimal:
  "0 \<le> i \<Longrightarrow> int (decimal_value (Itoa i)) = i \<and> (\<forall>c \<in> set (Itoa i). decimal_digit c)"
  using formatBits_digits [of "nat i"] by (simp add: Itoa_def decimal_value_formatBits)

lemma Itoa_2026: "Itoa 2026 = ''2026''" by code_simp

section \<open>Properties of the path functions\<close>

lemma Clean_plain:
  assumes "x \<noteq> []" and "CHR ''/'' \<notin> set x" and "CHR ''.'' \<notin> set x"
  shows "Clean (x @ ''/src'') = x @ ''/src''"
proof -
  obtain c cs where x: "x = c # cs"
    using assms(1) by (cases x) auto
  have c: "c \<noteq> Separator" "c \<noteq> CHR ''.''"
    using assms(2,3) by (auto simp: x Separator_def)
  have p: "\<forall>a \<in> set x. a \<noteq> Separator"
    using assms(2) by (auto simp: Separator_def)
  have "takeWhile (\<lambda>a. a \<noteq> Separator) (x @ Separator # ''src'') = x"
    using p by (simp add: takeWhile_tail takeWhile_eq_all_conv)
  then have t: "takeWhile (\<lambda>a. a \<noteq> Separator) (c # cs @ ''/src'') = x"
    by (simp add: x Separator_def)
  have "dropWhile (\<lambda>a. a \<noteq> Separator) (x @ Separator # ''src'') = Separator # ''src''"
    using p by (simp add: dropWhile_append3 dropWhile_eq_Nil_conv)
  then have d: "dropWhile (\<lambda>a. a \<noteq> Separator) (c # cs @ ''/src'') = ''/src''"
    by (simp add: x Separator_def)
  have "Clean_loop False (c # cs @ ''/src'') [] 0 = Clean_loop False ''/src'' x 0"
    by (subst Clean_loop.simps) (simp only: c t d Let_def if_False, simp)
  also have "\<dots> = x @ ''/src''"
    using assms(1) by (simp add: Separator_def)
  finally show ?thesis
    using c by (simp add: Clean_def x)
qed

lemma filepath_Join_plain:
  assumes "x \<noteq> []" and "CHR ''/'' \<notin> set x" and "CHR ''.'' \<notin> set x"
  shows "filepath_Join [x, ''src''] = x @ ''/src''"
  using assms Clean_plain [OF assms] by (simp add: filepath_Join_def Separator_def)

section \<open>Claims about \<open>InputIncludes\<close>\<close>

lemma input_root_eq_normalized_root: "input_root dir = normalized_root dir"
proof -
  have s: "HasSuffix dir ''...'' \<longleftrightarrow> 3 \<le> length dir \<and> drop (length dir - 3) dir = ''...''"
    using HasSuffix_iff_drop [of dir "''...''"] by (simp add: numeral_3_eq_3)
  have a: "(if HasSuffix dir ''...'' then TrimSuffix dir ''...'' else dir)
             = strip_recursive_marker dir"
    unfolding strip_recursive_marker_def TrimSuffix_def s by (simp add: numeral_3_eq_3)
  have t: "HasPrefix d ''./vendor/'' \<longleftrightarrow> take 9 d = ''./vendor/''" for d
    using HasPrefix_iff_take [of d "''./vendor/''"] by (simp add: eval_nat_numeral)
  have b: "(if HasPrefix d ''./vendor/'' then TrimPrefix d ''./vendor/'' else d)
             = strip_vendor_prefix d" for d
    unfolding strip_vendor_prefix_def TrimPrefix_def t by (simp add: eval_nat_numeral)
  show ?thesis
    by (simp add: input_root_def normalized_root_def a b)
qed

lemma InputIncludes_loop_iff:
  "InputIncludes_loop dirs p \<longleftrightarrow> (\<exists>dir \<in> set dirs. HasPrefix (Path p) (input_root dir))"
  by (induction dirs) auto

lemma InputIncludes_loop_first_match:
  "HasPrefix (Path p) (input_root dir) \<Longrightarrow> InputIncludes_loop (pre @ dir # post) p"
  by (induction pre) auto

lemma strip_recursive_marker_append [simp]: "strip_recursive_marker (r @ ''...'') = r"
  by (simp add: strip_recursive_marker_def)

lemma strip_recursive_marker_other:
  "\<not> suffix ''...'' root \<Longrightarrow> strip_recursive_marker root = root"
  using HasSuffix_iff_drop [of root "''...''"]
  by (auto simp: strip_recursive_marker_def HasSuffix_def numeral_3_eq_3)

lemma strip_vendor_prefix_append [simp]: "strip_vendor_prefix (''./vendor/'' @ r) = r"
  by (simp add: strip_vendor_prefix_def)

lemma strip_vendor_prefix_other:
  "\<not> prefix ''./vendor/'' root \<Longrightarrow> strip_vendor_prefix root = root"
  using HasPrefix_iff_take [of root "''./vendor/''"]
  by (auto simp: strip_vendor_prefix_def HasPrefix_def eval_nat_numeral)

text \<open>
  Claim C1. \<open>InputIncludes\<close> is a string-prefix membership test over the input roots:
  it is true exactly when the path of the package has, as a string prefix, some input
  root from which a trailing \<open>...\<close> and then a leading \<open>./vendor/\<close> have been removed.
  For the root \<open>a/b\<close> it is true for the paths \<open>a/b/c\<close> and \<open>a/bxyz\<close> and false for
  the path \<open>x/a/b\<close>.
\<close>

theorem InputIncludes_prefix_test:
  "(InputIncludes g p \<longleftrightarrow>
      (\<exists>root \<in> set (InputDirs g). prefix (normalized_root root) (Path p)))
   \<and> (InputDirs g = [''a/b''] \<and> Path p = ''a/b/c'' \<longrightarrow> InputIncludes g p)
   \<and> (InputDirs g = [''a/b''] \<and> Path p = ''a/bxyz'' \<longrightarrow> InputIncludes g p)
   \<and> (InputDirs g = [''a/b''] \<and> Path p = ''x/a/b'' \<longrightarrow> \<not> InputIncludes g p)"
proof -
  have iff: "InputIncludes g p \<longleftrightarrow>
      (\<exists>root \<in> set (InputDirs g). prefix (normalized_root root) (Path p))"
    by (simp add: InputIncludes_def InputIncludes_loop_iff HasPrefix_def
        input_root_eq_normalized_root)
  have ab: "normalized_root ''a/b'' = ''a/b''"
    by (simp add: normalized_root_def strip_recursive_marker_def strip_vendor_prefix_def)
  show ?thesis
    using iff by (auto simp: ab)
qed

theorem InputIncludes_prefix_test_witness:
  "InputIncludes
     \<lparr>InputDirs = [''./vendor/k8s.io/api/...'', ''a/b''], OutputBase = ''./'',
      OutputPackagePath = [], OutputFileBaseName = [], GoHeaderFilePath = [],
      GeneratedByCommentTemplate = [], VerifyOnly = False, IncludeTestFile = False,
      GeneratedBuildTag = [], CustomArgs = (), defaultCommandLineFlags = False\<rparr>
     \<lparr>Path = ''k8s.io/api/core/v1''\<rparr>"
  using InputIncludes_prefix_test
    [of "\<lparr>InputDirs = [''./vendor/k8s.io/api/...'', ''a/b''], OutputBase = ''./'',
      OutputPackagePath = [], OutputFileBaseName = [], GoHeaderFilePath = [],
      GeneratedByCommentTemplate = [], VerifyOnly = False, IncludeTestFile = False,
      GeneratedBuildTag = [], CustomArgs = (), defaultCommandLineFlags = False\<rparr>"
        "\<lparr>Path = ''k8s.io/api/core/v1''\<rparr>"]
  by (simp add: normalized_root_def strip_recursive_marker_def strip_vendor_prefix_def)

text \<open>
  Claim C10. When some input root normalises to the empty string, as the roots \<open>...\<close>
  and \<open>./vendor/...\<close> do, \<open>InputIncludes\<close> is true for every package.
\<close>

theorem InputIncludes_empty_root:
  "(root \<in> set (InputDirs g) \<and> input_root root = [] \<longrightarrow> InputIncludes g p)
   \<and> input_root ''...'' = []
   \<and> input_root ''./vendor/...'' = []"
proof -
  have "InputIncludes g p" if "root \<in> set (InputDirs g)" and "input_root root = []"
  proof -
    have "HasPrefix (Path p) (input_root root)"
      using that(2) by (simp add: HasPrefix_def)
    with that(1) show ?thesis
      unfolding InputIncludes_def InputIncludes_loop_iff by blast
  qed
  moreover have "input_root ''...'' = []"
    by (simp add: input_root_def HasSuffix_def HasPrefix_def TrimSuffix_def suffix_to_prefix)
  moreover have "input_root ''./vendor/...'' = []"
    by (simp add: input_root_def HasSuffix_def HasPrefix_def TrimSuffix_def TrimPrefix_def
        suffix_to_prefix)
  ultimately show ?thesis
    by blast
qed

theorem InputIncludes_empty_root_witness:
  "InputIncludes
     \<lparr>InputDirs = [''pkg/apis'', ''./vendor/...''], OutputBase = ''./'',
      OutputPackagePath = [], OutputFileBaseName = [], GoHeaderFilePath = [],
      GeneratedByCommentTemplate = [], VerifyOnly = False, IncludeTestFile = False,
      GeneratedBuildTag = [], CustomArgs = (), defaultCommandLineFlags = False\<rparr>
     \<lparr>Path = ''unrelated/package''\<rparr>"
  using InputIncludes_empty_root
    [of "''./vendor/...''"
        "\<lparr>InputDirs = [''pkg/apis'', ''./vendor/...''], OutputBase = ''./'',
      OutputPackagePath = [], OutputFileBaseName = [], GoHeaderFilePath = [],
      GeneratedByCommentTemplate = [], VerifyOnly = False, IncludeTestFile = False,
      GeneratedBuildTag = [], CustomArgs = (), defaultCommandLineFlags = False\<rparr>"
        "\<lparr>Path = ''unrelated/package''\<rparr>"]
  by simp

section \<open>Claims about \<open>DefaultSourceTree\<close>\<close>

lemma DefaultSourceTree_first:
  "DefaultSourceTree os =
     (let first = takeWhile (\<lambda>c. c \<noteq> ListSeparator) (Getenv os ''GOPATH'')
      in if first \<noteq> [] then filepath_Join [first, ''src''] else ''./'')"
proof -
  obtain rest where "Split (Getenv os ''GOPATH'') [ListSeparator]
      = takeWhile (\<lambda>c. c \<noteq> ListSeparator) (Getenv os ''GOPATH'') # rest"
    using Split_single by blast
  then show ?thesis
    by (simp add: DefaultSourceTree_def Let_def)
qed

text \<open>
  Claim C9. \<open>DefaultSourceTree\<close> returns \<open>filepath.Join\<close> of the first entry of \<open>GOPATH\<close>
  and \<open>src\<close> when that entry is not empty, and \<open>./\<close> when the variable is not set, is
  empty or starts with the list separator. With the value \<open>X\<close>, the separator, \<open>Y\<close> it
  returns \<open>X/src\<close>, and so for every first entry without slash, dot or separator.
\<close>

theorem DefaultSourceTree_first_entry:
  "DefaultSourceTree os =
     (let first = takeWhile (\<lambda>c. c \<noteq> ListSeparator) (Getenv os ''GOPATH'')
      in if first \<noteq> [] then filepath_Join [first, ''src''] else ''./'')
   \<and> (environ os ''GOPATH'' = None \<longrightarrow> DefaultSourceTree os = ''./'')
   \<and> (environ os ''GOPATH'' = Some [] \<longrightarrow> DefaultSourceTree os = ''./'')
   \<and> (\<forall>rest. environ os ''GOPATH'' = Some (ListSeparator # rest) \<longrightarrow>
         DefaultSourceTree os = ''./'')
   \<and> (environ os ''GOPATH'' = Some (''X'' @ [ListSeparator] @ ''Y'') \<longrightarrow>
         DefaultSourceTree os = ''X/src'')
   \<and> (\<forall>x y. x \<noteq> [] \<and> CHR ''/'' \<notin> set x \<and> CHR ''.'' \<notin> set x \<and> ListSeparator \<notin> set x
           \<and> environ os ''GOPATH'' = Some (x @ [ListSeparator] @ y) \<longrightarrow>
         DefaultSourceTree os = x @ ''/src'')"
proof (intro conjI allI impI)
  show "DefaultSourceTree os =
     (let first = takeWhile (\<lambda>c. c \<noteq> ListSeparator) (Getenv os ''GOPATH'')
      in if first \<noteq> [] then filepath_Join [first, ''src''] else ''./'')"
    by (rule DefaultSourceTree_first)
next
  assume "environ os ''GOPATH'' = None"
  then show "DefaultSourceTree os = ''./''"
    by (simp add: DefaultSourceTree_first Getenv_def)
next
  assume "environ os ''GOPATH'' = Some []"
  then show "DefaultSourceTree os = ''./''"
    by (simp add: DefaultSourceTree_first Getenv_def)
next
  fix rest
  assume "environ os ''GOPATH'' = Some (ListSeparator # rest)"
  then show "DefaultSourceTree os = ''./''"
    by (simp add: DefaultSourceTree_first Getenv_def)
next
  fix x y
  assume a: "x \<noteq> [] \<and> CHR ''/'' \<notin> set x \<and> CHR ''.'' \<notin> set x \<and> ListSeparator \<notin> set x
           \<and> environ os ''GOPATH'' = Some (x @ [ListSeparator] @ y)"
  then have "takeWhile (\<lambda>c. c \<noteq> ListSeparator) (Getenv os ''GOPATH'') = x"
    by (auto simp: Getenv_def takeWhile_tail)
  with a show "DefaultSourceTree os = x @ ''/src''"
    by (simp add: DefaultSourceTree_first filepath_Join_plain)
next
  assume a: "environ os ''GOPATH'' = Some (''X'' @ [ListSeparator] @ ''Y'')"
  then have "takeWhile (\<lambda>c. c \<noteq> ListSeparator) (Getenv os ''GOPATH'') = ''X''"
    by (simp add: Getenv_def ListSeparator_def)
  moreover have "filepath_Join [''X'', ''src''] = ''X/src''"
    using filepath_Join_plain [of "''X''"] by simp
  ultimately show "DefaultSourceTree os = ''X/src''"
    by (simp add: DefaultSourceTree_first)
qed

theorem DefaultSourceTree_first_entry_witness:
  "DefaultSourceTree
     \<lparr>environ = [''GOPATH'' \<mapsto> ''gopath:/usr/local/go''], Args = [''/go/bin/deepcopy-gen''],
      ReadFile = (\<lambda>name. Inl (External ''no such file or directory'')), Year = 2026\<rparr>
   = ''gopath/src''"
  (is "DefaultSourceTree ?os = _")
proof -
  have "''gopath'' \<noteq> [] \<and> CHR ''/'' \<notin> set ''gopath'' \<and> CHR ''.'' \<notin> set ''gopath''
          \<and> ListSeparator \<notin> set ''gopath''
          \<and> environ ?os ''GOPATH'' = Some (''gopath'' @ [ListSeparator] @ ''/usr/local/go'')"
    by (simp add: ListSeparator_def)
  then have "DefaultSourceTree ?os = ''gopath'' @ ''/src''"
    using DefaultSourceTree_first_entry [of ?os] by blast
  then show ?thesis
    by simp
qed

section \<open>Claims about \<open>LoadGoBoilerplate\<close>\<close>

text \<open>
  Claim C3. \<open>LoadGoBoilerplate\<close> replaces every occurrence of \<open>YEAR\<close> in the content of
  the header file by the decimal string of the current UTC year: a content is, in some
  way, a list of pieces free of \<open>YEAR\<close> with \<open>YEAR\<close> between them, and in whichever way it
  is, what goes on to the generated-by step is the same pieces with the year between
  them. A content free of \<open>YEAR\<close> goes on unchanged. The string put in for a year that is
  not negative is made of decimal digits and has the year as its value.
\<close>

theorem LoadGoBoilerplate_replaces_YEAR:
  assumes "ReadFile os (GoHeaderFilePath g) = Inr b"
  shows "(\<exists>segs. b = Join segs ''YEAR'' \<and> (\<forall>x \<in> set segs. \<not> sublist ''YEAR'' x))
       \<and> (\<forall>segs. b = Join segs ''YEAR'' \<and> (\<forall>x \<in> set segs. \<not> sublist ''YEAR'' x) \<longrightarrow>
             LoadGoBoilerplate os g = append_generated_by os g (Join segs (Itoa (Year os))))
       \<and> (\<not> sublist ''YEAR'' b \<longrightarrow> LoadGoBoilerplate os g = append_generated_by os g b)
       \<and> (0 \<le> Year os \<longrightarrow>
             int (decimal_value (Itoa (Year os))) = Year os
             \<and> (\<forall>c \<in> set (Itoa (Year os)). decimal_digit c))"
proof -
  have pieces: "\<exists>segs. b = Join segs ''YEAR'' \<and> (\<forall>x \<in> set segs. \<not> sublist ''YEAR'' x)"
    by (rule YEAR_decomposition)
  have replaced: "\<forall>segs. b = Join segs ''YEAR'' \<and> (\<forall>x \<in> set segs. \<not> sublist ''YEAR'' x) \<longrightarrow>
      LoadGoBoilerplate os g = append_generated_by os g (Join segs (Itoa (Year os)))"
  proof (intro allI impI)
    fix segs
    assume a: "b = Join segs ''YEAR'' \<and> (\<forall>x \<in> set segs. \<not> sublist ''YEAR'' x)"
    have "Replace (Join segs ''YEAR'') ''YEAR'' (Itoa (Year os)) = Join segs (Itoa (Year os))"
      using a by (intro Replace_Join) simp_all
    with a assms
    show "LoadGoBoilerplate os g = append_generated_by os g (Join segs (Itoa (Year os)))"
      by (simp add: LoadGoBoilerplate_def)
  qed
  have unchanged: "\<not> sublist ''YEAR'' b \<longrightarrow> LoadGoBoilerplate os g = append_generated_by os g b"
  proof
    assume "\<not> sublist ''YEAR'' b"
    then have "Replace b ''YEAR'' (Itoa (Year os)) = b"
      by (intro Replace_free) simp_all
    with assms show "LoadGoBoilerplate os g = append_generated_by os g b"
      by (simp add: LoadGoBoilerplate_def)
  qed
  have decimal: "0 \<le> Year os \<longrightarrow>
      int (decimal_value (Itoa (Year os))) = Year os
      \<and> (\<forall>c \<in> set (Itoa (Year os)). decimal_digit c)"
    using Itoa_decimal [of "Year os"] by blast
  show ?thesis
    by (intro conjI pieces replaced unchanged decimal)
qed

theorem LoadGoBoilerplate_replaces_YEAR_witness:
  "LoadGoBoilerplate
     \<lparr>environ = Map.empty, Args = [''/go/bin/deepcopy-gen''],
      ReadFile = (\<lambda>name. if name = ''hack/boilerplate.go.txt''
                          then Inr ''// Copyright YEAR The Authors, YEAR-YEAR''
                          else Inl (External ''no such file or directory'')),
      Year = 2026\<rparr>
     \<lparr>InputDirs = [''pkg/apis''], OutputBase = ''./'',
      OutputPackagePath = [], OutputFileBaseName = [],
      GoHeaderFilePath = ''hack/boilerplate.go.txt'',
      GeneratedByCommentTemplate = [], VerifyOnly = False, IncludeTestFile = False,
      GeneratedBuildTag = ''ignore_autogenerated'', CustomArgs = (),
      defaultCommandLineFlags = False\<rparr>
   = Returns (Inr ''// Copyright 2026 The Authors, 2026-2026'')"
  (is "LoadGoBoilerplate ?os ?g = _")
proof -
  let ?segs = "[''// Copyright '', '' The Authors, '', ''-'', []]"
  have r: "ReadFile ?os (GoHeaderFilePath ?g) = Inr ''// Copyright YEAR The Authors, YEAR-YEAR''"
    by simp
  have f: "''// Copyright YEAR The Authors, YEAR-YEAR'' = Join ?segs ''YEAR''
           \<and> (\<forall>x \<in> set ?segs. \<not> sublist ''YEAR'' x)"
    by (simp add: sublist_Cons_right)
  have "LoadGoBoilerplate ?os ?g = append_generated_by ?os ?g (Join ?segs (Itoa (Year ?os)))"
    using LoadGoBoilerplate_replaces_YEAR [OF r] f by blast
  then show ?thesis
    by (simp add: append_generated_by_def Itoa_2026)
qed

text \<open>
  Claim C4. When the generated-by template is empty, or the header after the
  substitution of the year is empty, \<open>LoadGoBoilerplate\<close> returns exactly the header
  after the substitution; for an empty header file that is the empty byte sequence.
\<close>

theorem LoadGoBoilerplate_no_generated_by:
  assumes "ReadFile os (GoHeaderFilePath g) = Inr b"
  shows "(GeneratedByCommentTemplate g = [] \<or> Replace b ''YEAR'' (Itoa (Year os)) = [] \<longrightarrow>
            LoadGoBoilerplate os g = Returns (Inr (Replace b ''YEAR'' (Itoa (Year os)))))
       \<and> (b = [] \<longrightarrow> LoadGoBoilerplate os g = Returns (Inr []))"
proof -
  have "Replace [] ''YEAR'' (Itoa (Year os)) = []"
    by (subst Replace.simps) simp
  then show ?thesis
    using assms by (auto simp: LoadGoBoilerplate_def append_generated_by_def)
qed

theorem LoadGoBoilerplate_no_generated_by_witness:
  "LoadGoBoilerplate
     \<lparr>environ = Map.empty, Args = [''/go/bin/deepcopy-gen''],
      ReadFile = (\<lambda>name. if name = ''hack/empty.txt'' then Inr []
                          else Inl (External ''no such file or directory'')),
      Year = 2026\<rparr>
     \<lparr>InputDirs = [''pkg/apis''], OutputBase = ''./'',
      OutputPackagePath = [], OutputFileBaseName = [],
      GoHeaderFilePath = ''hack/empty.txt'',
      GeneratedByCommentTemplate = ''// Code generated by GENERATOR_NAME. Do NOT EDIT.'',
      VerifyOnly = False, IncludeTestFile = False,
      GeneratedBuildTag = ''ignore_autogenerated'', CustomArgs = (),
      defaultCommandLineFlags = False\<rparr>
   = Returns (Inr [])"
  (is "LoadGoBoilerplate ?os ?g = _")
proof -
  have r: "ReadFile ?os (GoHeaderFilePath ?g) = Inr []"
    by simp
  show ?thesis
    using LoadGoBoilerplate_no_generated_by [OF r] by simp
qed

text \<open>
  Claim C5. When the generated-by template and the header after the substitution of the
  year are both non-empty, \<open>LoadGoBoilerplate\<close> returns the header, a newline, the
  template with every \<open>GENERATOR_NAME\<close> replaced by the base name of the first element
  of the command line, and two newlines.
\<close>

theorem LoadGoBoilerplate_generated_by:
  assumes "ReadFile os (GoHeaderFilePath g) = Inr b"
    and "header = Replace b ''YEAR'' (Itoa (Year os))"
    and "GeneratedByCommentTemplate g \<noteq> []" and "header \<noteq> []"
    and "Args os = arg0 # args"
  shows "LoadGoBoilerplate os g
           = Returns (Inr (header @ [CHR 0x0A]
               @ Replace (GeneratedByCommentTemplate g) ''GENERATOR_NAME'' (Base arg0)
               @ [CHR 0x0A, CHR 0x0A]))
       \<and> (\<forall>segs. GeneratedByCommentTemplate g = Join segs ''GENERATOR_NAME''
              \<and> (\<forall>x \<in> set segs. \<not> sublist ''GENERATOR_NAME'' x)
            \<longrightarrow> Replace (GeneratedByCommentTemplate g) ''GENERATOR_NAME'' (Base arg0)
                  = Join segs (Base arg0))"
proof -
  have "Replace (Join segs ''GENERATOR_NAME'') ''GENERATOR_NAME'' new = Join segs new"
    if "\<forall>x \<in> set segs. \<not> sublist ''GENERATOR_NAME'' x" for segs new
    using that by (intro Replace_Join) simp_all
  then show ?thesis
    using assms by (auto simp: LoadGoBoilerplate_def append_generated_by_def Let_def)
qed

theorem LoadGoBoilerplate_generated_by_witness:
  "LoadGoBoilerplate
     \<lparr>environ = Map.empty, Args = [''/go/bin/deepcopy-gen'', ''-i'', ''pkg/apis''],
      ReadFile = (\<lambda>name. if name = ''hack/boilerplate.go.txt''
                          then Inr ''// Copyright YEAR The Authors''
                          else Inl (External ''no such file or directory'')),
      Year = 2026\<rparr>
     \<lparr>InputDirs = [''pkg/apis''], OutputBase = ''./'',
      OutputPackagePath = [], OutputFileBaseName = [],
      GoHeaderFilePath = ''hack/boilerplate.go.txt'',
      GeneratedByCommentTemplate = ''// Code generated by GENERATOR_NAME. Do NOT EDIT.'',
      VerifyOnly = False, IncludeTestFile = False,
      GeneratedBuildTag = ''ignore_autogenerated'', CustomArgs = (),
      defaultCommandLineFlags = False\<rparr>
   = Returns (Inr (''// Copyright 2026 The Authors'' @ [CHR 0x0A]
        @ ''// Code generated by deepcopy-gen. Do NOT EDIT.'' @ [CHR 0x0A, CHR 0x0A]))"
  (is "LoadGoBoilerplate ?os ?g = _")
proof -
  have r: "ReadFile ?os (GoHeaderFilePath ?g) = Inr ''// Copyright YEAR The Authors''"
    by simp
  have h: "''// Copyright 2026 The Authors''
             = Replace ''// Copyright YEAR The Authors'' ''YEAR'' (Itoa (Year ?os))"
    by code_simp
  have b: "Base ''/go/bin/deepcopy-gen'' = ''deepcopy-gen''"
    by code_simp
  have c: "Replace ''// Code generated by GENERATOR_NAME. Do NOT EDIT.'' ''GENERATOR_NAME''
             ''deepcopy-gen'' = ''// Code generated by deepcopy-gen. Do NOT EDIT.''"
    by code_simp
  show ?thesis
    using LoadGoBoilerplate_generated_by [OF r h, of "''/go/bin/deepcopy-gen''" "[''-i'', ''pkg/apis'']"]
    by (simp add: b c)
qed

text \<open>
  Claim C6. When the header file cannot be read, \<open>LoadGoBoilerplate\<close> returns the error
  of the read as it is, with no bytes.
\<close>

theorem LoadGoBoilerplate_read_error:
  "ReadFile os (GoHeaderFilePath g) = Inl err \<Longrightarrow> LoadGoBoilerplate os g = Returns (Inl err)"
  by (simp add: LoadGoBoilerplate_def)

theorem LoadGoBoilerplate_read_error_witness:
  "LoadGoBoilerplate
     \<lparr>environ = Map.empty, Args = [''/go/bin/deepcopy-gen''],
      ReadFile = (\<lambda>name. if name = ''hack/boilerplate.go.txt''
                          then Inr ''// Copyright YEAR The Authors''
                          else Inl (External ''no such file or directory'')),
      Year = 2026\<rparr>
     \<lparr>InputDirs = [''pkg/apis''], OutputBase = ''./'',
      OutputPackagePath = [], OutputFileBaseName = [],
      GoHeaderFilePath = ''hack/missing.txt'',
      GeneratedByCommentTemplate = ''// Code generated by GENERATOR_NAME. Do NOT EDIT.'',
      VerifyOnly = False, IncludeTestFile = False,
      GeneratedBuildTag = ''ignore_autogenerated'', CustomArgs = (),
      defaultCommandLineFlags = False\<rparr>
   = Returns (Inl (External ''no such file or directory''))"
  (is "LoadGoBoilerplate ?os ?g = _")
proof -
  have r: "ReadFile ?os (GoHeaderFilePath ?g) = Inl (External ''no such file or directory'')"
    by simp
  show ?thesis
    using LoadGoBoilerplate_read_error [OF r] .
qed

section \<open>Claims about \<open>NewBuilder\<close>\<close>



lemma NewBuilder_loop_append:
  "NewBuilder_loop P (pre @ post) b =
     (case NewBuilder_loop P pre b of
        (calls, Inl err) \<Rightarrow> (calls, Inl err)
      | (calls, Inr b1) \<Rightarrow>
          (case NewBuilder_loop P post b1 of (calls', r) \<Rightarrow> (calls @ calls', r)))"
  by (induction pre arbitrary: b) (auto split: prod.splits option.splits sum.splits)

lemma NewBuilder_loop_success:
  "NewBuilder_loop P ds b = (calls, Inr b') \<Longrightarrow> calls = map registration ds"
  by (induction ds arbitrary: b calls) (auto split: prod.splits option.splits)




text \<open>
  Claim C8. When the registration of an input specification fails, the specifications
  before it having been registered, \<open>NewBuilder\<close> returns no builder and an error that
  carries this specification and the error of the registration, its message being
  \<open>unable to add directory\<close>, the quoted specification, a colon and the message of that
  error; the calls made end with the failed registration, so that no later
  specification is registered.
\<close>

theorem NewBuilder_fail_fast:
  assumes "InputDirs g = pre @ d # post"
    and "b0 = AddBuildTags P ((parser_New P)\<lparr>IncludeTestFiles := IncludeTestFile g\<rparr>)
                (GeneratedBuildTag g)"
    and "NewBuilder_loop P pre b0 = (calls, Inr b1)"
    and "fst (add_input_dir P b1 d) = Some err"
  shows "NewBuilder P g
           = (Call_New # Call_AddBuildTags (GeneratedBuildTag g) # map registration (pre @ [d]),
              Inl (UnableToAddDirectory d err))
       \<and> Error quote (UnableToAddDirectory d err)
           = ''unable to add directory '' @ quote d @ '': '' @ Error quote err"
proof -
  have c: "calls = map registration pre"
    using assms(3) by (rule NewBuilder_loop_success)
  have f: "NewBuilder_loop P (d # post) b1 = ([registration d], Inl (UnableToAddDirectory d err))"
    using assms(4) by (cases "add_input_dir P b1 d") auto
  have "NewBuilder_loop P (pre @ d # post) b0
      = (map registration (pre @ [d]), Inl (UnableToAddDirectory d err))"
    by (subst NewBuilder_loop_append) (simp add: assms(3) f c del: NewBuilder_loop.simps)
  then have "NewBuilder_loop P (InputDirs g) b0
      = (map registration (pre @ [d]), Inl (UnableToAddDirectory d err))"
    using assms(1) by simp
  then show ?thesis
    using assms(2) by (simp add: NewBuilder_def)
qed

theorem NewBuilder_fail_fast_witness:
  "NewBuilder
     \<lparr>parser_New = \<lparr>IncludeTestFiles = False, builder_state = ([] :: string list)\<rparr>,
      AddBuildTags = (\<lambda>b tag. b),
      AddDir = (\<lambda>b d. if d = ''missing'' then (Some (External ''no such directory''), b)
                        else (None, b\<lparr>builder_state := builder_state b @ [d]\<rparr>)),
      AddDirRecursive = (\<lambda>b d. if d = ''missing'' then (Some (External ''no such directory''), b)
                        else (None, b\<lparr>builder_state := builder_state b @ [d]\<rparr>))\<rparr>
     \<lparr>InputDirs = [''pkg/apis/...'', ''missing'', ''pkg/util''], OutputBase = ''./'',
      OutputPackagePath = [], OutputFileBaseName = [], GoHeaderFilePath = [],
      GeneratedByCommentTemplate = [], VerifyOnly = False, IncludeTestFile = False,
      GeneratedBuildTag = ''ignore_autogenerated'', CustomArgs = (),
      defaultCommandLineFlags = False\<rparr>
   = ([Call_New, Call_AddBuildTags ''ignore_autogenerated'',
       Call_AddDirRecursive ''pkg/apis'', Call_AddDir ''missing''],
      Inl (UnableToAddDirectory ''missing'' (External ''no such directory'')))"
  (is "NewBuilder ?P ?g = _")
proof -
  let ?b0 = "\<lparr>IncludeTestFiles = False, builder_state = ([] :: string list)\<rparr>"
  let ?b1 = "\<lparr>IncludeTestFiles = False, builder_state = [''pkg/apis'']\<rparr>"
  have i: "InputDirs ?g = [''pkg/apis/...''] @ ''missing'' # [''pkg/util'']"
    by simp
  have b: "?b0 = AddBuildTags ?P ((parser_New ?P)\<lparr>IncludeTestFiles := IncludeTestFile ?g\<rparr>)
                   (GeneratedBuildTag ?g)"
    by simp
  have l: "NewBuilder_loop ?P [''pkg/apis/...''] ?b0 = ([Call_AddDirRecursive ''pkg/apis''], Inr ?b1)"
    by (simp add: add_input_dir_def registration_def HasSuffix_def TrimSuffix_def suffix_to_prefix)
  have f: "fst (add_input_dir ?P ?b1 ''missing'') = Some (External ''no such directory'')"
    by (simp add: add_input_dir_def HasSuffix_def suffix_to_prefix)
  have r: "map registration ([''pkg/apis/...''] @ [''missing''])
             = [Call_AddDirRecursive ''pkg/apis'', Call_AddDir ''missing'']"
    by (simp add: registration_def HasSuffix_def TrimSuffix_def suffix_to_prefix)
  show ?thesis
    using NewBuilder_fail_fast [OF i b l f] unfolding r by simp
qed

section \<open>Claims about \<open>Execute\<close>\<close>

lemma filter_is_ExecutePackages_parser [simp]:
  "filter is_ExecutePackages (map Call_parser calls) = []"
  by (induction calls) auto



end
